theory Spec2Isabelle
  imports Main "HOL-Library.Monad_Syntax"
begin

section \<open>The page script \<open>scripts/main.js\<close>\<close>

subsection \<open>JavaScript values\<close>

text \<open>
  \<open>prompt\<close>, \<open>localStorage.getItem\<close> and \<open>getAttribute\<close> return a string or \<open>null\<close>:
  a \<open>string option\<close>, \<open>None\<close> being \<open>null\<close>.
\<close>

type_synonym js_value = "string option"

text \<open>\<open>!v\<close> for a string or \<open>null\<close>: true exactly for \<open>null\<close> and the empty string.\<close>

definition falsy :: "js_value \<Rightarrow> bool" where
  "falsy v = (case v of None \<Rightarrow> True | Some s \<Rightarrow> s = [])"

text \<open>
  The conversion to a string that \<open>+\<close> with a string operand and \<open>setItem\<close> apply
  to their argument: \<open>null\<close> becomes the four characters \<open>null\<close>.
\<close>

definition to_string :: "js_value \<Rightarrow> string" where
  "to_string v = (case v of None \<Rightarrow> ''null'' | Some s \<Rightarrow> s)"

subsection \<open>The page\<close>

text \<open>A DOM element, as far as the script touches it: its attributes and its text.\<close>

record element =
  attrs :: "string \<rightharpoonup> string"
  textContent :: string

definition getAttribute :: "element \<Rightarrow> string \<Rightarrow> js_value" where
  "getAttribute e k = attrs e k"

definition setAttribute :: "element \<Rightarrow> string \<Rightarrow> string \<Rightarrow> element" where
  "setAttribute e k v = e\<lparr>attrs := (attrs e)(k \<mapsto> v)\<rparr>"

text \<open>What the script does that an observer of the page sees, in the order it happens.\<close>

datatype event =
    is_Prompt: Prompt
  | SetItem string string
  | TextContent string

text \<open>
  The state the script reads and writes: the three elements' state it uses
  (\<open>myImage\<close>, \<open>myHeading\<close>; the button has none), \<open>localStorage\<close>, the number of
  \<open>prompt\<close> calls made so far and the trace of events.
\<close>

record page =
  myImage :: element
  myHeading :: element
  localStorage :: "string \<rightharpoonup> string"
  prompted :: nat
  trace :: "event list"

text \<open>
  The user: the answer given to the \<open>i\<close>-th \<open>prompt\<close> call (counted from 0),
  \<open>None\<close> when the dialog is cancelled.
\<close>

type_synonym user = "nat \<Rightarrow> js_value"

definition prompt :: "user \<Rightarrow> page \<Rightarrow> js_value \<times> page" where
  "prompt u p = (u (prompted p), p\<lparr>prompted := Suc (prompted p), trace := trace p @ [Prompt]\<rparr>)"

definition getItem :: "string \<Rightarrow> page \<Rightarrow> js_value" where
  "getItem k p = localStorage p k"

definition setItem :: "string \<Rightarrow> js_value \<Rightarrow> page \<Rightarrow> page" where
  "setItem k v p =
     p\<lparr>localStorage := (localStorage p)(k \<mapsto> to_string v),
       trace := trace p @ [SetItem k (to_string v)]\<rparr>"

definition set_textContent :: "string \<Rightarrow> page \<Rightarrow> page" where
  "set_textContent s p =
     p\<lparr>myHeading := (myHeading p)\<lparr>textContent := s\<rparr>, trace := trace p @ [TextContent s]\<rparr>"

subsection \<open>The image's click handler\<close>

definition myImage_onclick :: "page \<Rightarrow> page" where
  "myImage_onclick p =
     (let mySrc = getAttribute (myImage p) ''src'' in
      if mySrc = Some ''images/user-image.png''
      then p\<lparr>myImage := setAttribute (myImage p) ''src''
             ''https://i5.walmartimages.com/asr/87061092-70de-4a9b-ae77-b0f20a9c54d5_1.520c5864c2391e9f24041a1faa3d5d3a.jpeg?odnWidth=612&odnHeight=612&odnBg=ffffff''\<rparr>
      else p\<lparr>myImage := setAttribute (myImage p) ''src'' ''images/user-image.png''\<rparr>)"

subsection \<open>The name and the greeting\<close>

text \<open>
  \<open>setUserName\<close> calls itself while the answer is falsy, and the two writes come after
  the \<open>if\<close>, in every invocation. A run that never returns is \<open>None\<close>. This is the
  function on a call stack without a bound; \<open>setUserName_stack\<close> below has the bound.
\<close>

partial_function (option) setUserName :: "user \<Rightarrow> page \<Rightarrow> page option" where
  "setUserName u p =
     (case prompt u p of (myName, p1) \<Rightarrow>
        do {
          p2 \<leftarrow> (if falsy myName then setUserName u p1 else Some p1);
          Some (set_textContent (''Welcome, '' @ to_string myName @ ''!'')
                  (setItem ''name'' myName p2))
        })"

text \<open>The statements the script runs when the page loads.\<close>

definition page_load :: "user \<Rightarrow> page \<Rightarrow> page option" where
  "page_load u p =
     (if falsy (getItem ''name'' p) then setUserName u p
      else (let storedName = getItem ''name'' p in
            Some (set_textContent (''Welcome, '' @ to_string storedName @ ''!'') p)))"

definition myButton_onclick :: "user \<Rightarrow> page \<Rightarrow> page option" where
  "myButton_onclick u p = setUserName u p"

subsection \<open>The call stack\<close>

text \<open>
  The recursive call of \<open>setUserName\<close> is not a tail call: every retry holds a frame
  on the call stack until the calls inside it are done. An engine has room for finitely
  many frames, and the call that does not fit throws a \<open>RangeError\<close>. The script catches
  nothing, so the error ends every pending invocation before its two writes.

  \<open>setUserName_stack u d p\<close> is \<open>setUserName\<close> on a stack with room for \<open>d\<close> nested
  invocations; the number \<open>d\<close> is the engine's, and a parameter here. \<open>Inl\<close> is the
  error together with the page as it is when the error is thrown, \<open>Inr\<close> the page when
  the call returns.
\<close>

datatype error = RangeError

fun setUserName_stack :: "user \<Rightarrow> nat \<Rightarrow> page \<Rightarrow> (error \<times> page) + page" where
  "setUserName_stack u 0 p = Inl (RangeError, p)"
| "setUserName_stack u (Suc d) p =
     (case prompt u p of (myName, p1) \<Rightarrow>
        (case (if falsy myName then setUserName_stack u d p1 else Inr p1) of
           Inl thrown \<Rightarrow> Inl thrown
         | Inr p2 \<Rightarrow>
             Inr (set_textContent (''Welcome, '' @ to_string myName @ ''!'')
                    (setItem ''name'' myName p2))))"

subsection \<open>Constants, observations and fixtures used by the properties\<close>

text \<open>The two image sources the handler writes.\<close>

definition default_src :: string where
  "default_src = ''images/user-image.png''"

definition alternate_src :: string where
  "alternate_src =
     ''https://i5.walmartimages.com/asr/87061092-70de-4a9b-ae77-b0f20a9c54d5_1.520c5864c2391e9f24041a1faa3d5d3a.jpeg?odnWidth=612&odnHeight=612&odnBg=ffffff''"

text \<open>The values written to a key of the store, and the texts written to the heading, in order.\<close>

definition store_writes :: "string \<Rightarrow> event list \<Rightarrow> string list" where
  "store_writes k es =
     concat (map (\<lambda>e. case e of SetItem k' v \<Rightarrow> (if k' = k then [v] else []) | _ \<Rightarrow> []) es)"

definition heading_writes :: "event list \<Rightarrow> string list" where
  "heading_writes es = concat (map (\<lambda>e. case e of TextContent s \<Rightarrow> [s] | _ \<Rightarrow> []) es)"

text \<open>
  The writes of \<open>n\<close> nested invocations of \<open>setUserName\<close> whose \<open>prompt\<close> calls were
  number \<open>s\<close>, ..., \<open>s + n - 1\<close>: the invocation that prompted last writes first.
\<close>

definition unwinding :: "user \<Rightarrow> nat \<Rightarrow> nat \<Rightarrow> event list" where
  "unwinding u s n =
     concat (map (\<lambda>i. [SetItem ''name'' (to_string (u i)),
                        TextContent (''Welcome, '' @ to_string (u i) @ ''!'')])
               (rev [s..<s + n]))"

text \<open>A user who gives the listed answers, one per \<open>prompt\<close>, and cancels every later dialog.\<close>

definition answers :: "js_value list \<Rightarrow> user" where
  "answers rs i = (if i < length rs then rs ! i else None)"

text \<open>The page on a first visit: nothing stored, nothing prompted, the image at its default.\<close>

definition first_visit :: page where
  "first_visit =
     \<lparr>myImage = \<lparr>attrs = [''src'' \<mapsto> ''images/user-image.png''], textContent = []\<rparr>,
      myHeading = \<lparr>attrs = [''name'' \<mapsto> ''welcome-bar''], textContent = []\<rparr>,
      localStorage = Map.empty,
      prompted = 0,
      trace = []\<rparr>"

text \<open>A later visit: the store already holds the name \<open>Sam\<close>.\<close>

definition returning :: page where
  "returning = first_visit\<lparr>localStorage := [''name'' \<mapsto> ''Sam'']\<rparr>"

text \<open>A page whose image has some other source, neither of the two the handler writes.\<close>

definition broken_image :: page where
  "broken_image =
     first_visit\<lparr>myImage := \<lparr>attrs = [''src'' \<mapsto> ''images/missing.png''], textContent = []\<rparr>\<rparr>"

section \<open>Properties\<close>

subsection \<open>One invocation of \<open>setUserName\<close>\<close>

lemma setUserName_truthy:
  "\<not> falsy (u (prompted p)) \<Longrightarrow>
   setUserName u p =
     Some (set_textContent (''Welcome, '' @ to_string (u (prompted p)) @ ''!'')
             (setItem ''name'' (u (prompted p)) (snd (prompt u p))))"
  by (subst setUserName.simps) (simp add: prompt_def)

lemma setUserName_falsy:
  "falsy (u (prompted p)) \<Longrightarrow>
   setUserName u p =
     map_option (\<lambda>p2. set_textContent (''Welcome, '' @ to_string (u (prompted p)) @ ''!'')
                        (setItem ''name'' (u (prompted p)) p2))
       (setUserName u (snd (prompt u p)))"
  by (subst setUserName.simps)
    (simp add: prompt_def map_option_case bind_eq_None_conv split: option.split)

subsection \<open>The trace of the writes\<close>

lemma unwinding_0: "unwinding u s 0 = []"
  by (simp add: unwinding_def)

lemma unwinding_Suc:
  "unwinding u s (Suc n) =
     unwinding u (Suc s) n @
     [SetItem ''name'' (to_string (u s)), TextContent (''Welcome, '' @ to_string (u s) @ ''!'')]"
  by (simp add: unwinding_def upt_conv_Cons del: upt_Suc)

lemma store_writes_append: "store_writes k (xs @ ys) = store_writes k xs @ store_writes k ys"
  by (simp add: store_writes_def)

lemma heading_writes_append: "heading_writes (xs @ ys) = heading_writes xs @ heading_writes ys"
  by (simp add: heading_writes_def)

lemma store_writes_Prompts: "store_writes k (replicate n Prompt) = []"
  by (induction n) (simp_all add: store_writes_def)

lemma heading_writes_Prompts: "heading_writes (replicate n Prompt) = []"
  by (induction n) (simp_all add: heading_writes_def)

lemma store_writes_unwinding:
  "store_writes ''name'' (unwinding u s n) = rev (map (\<lambda>i. to_string (u i)) [s..<s + n])"
proof (induction n arbitrary: s)
  case 0
  show ?case by (simp add: unwinding_0 store_writes_def)
next
  case (Suc n)
  have "store_writes ''name'' (unwinding u s (Suc n)) =
          store_writes ''name'' (unwinding u (Suc s) n) @ [to_string (u s)]"
    by (simp add: unwinding_Suc store_writes_append) (simp add: store_writes_def)
  also have "\<dots> = rev (map (\<lambda>i. to_string (u i)) [Suc s..<Suc s + n]) @ [to_string (u s)]"
    by (simp only: Suc.IH)
  also have "\<dots> = rev (map (\<lambda>i. to_string (u i)) [s..<s + Suc n])"
    by (simp add: upt_conv_Cons del: upt_Suc)
  finally show ?case .
qed

lemma heading_writes_unwinding:
  "heading_writes (unwinding u s n) =
     rev (map (\<lambda>i. ''Welcome, '' @ to_string (u i) @ ''!'') [s..<s + n])"
proof (induction n arbitrary: s)
  case 0
  show ?case by (simp add: unwinding_0 heading_writes_def)
next
  case (Suc n)
  have "heading_writes (unwinding u s (Suc n)) =
          heading_writes (unwinding u (Suc s) n) @ [''Welcome, '' @ to_string (u s) @ ''!'']"
    by (simp add: unwinding_Suc heading_writes_append) (simp add: heading_writes_def)
  also have "\<dots> = rev (map (\<lambda>i. ''Welcome, '' @ to_string (u i) @ ''!'') [Suc s..<Suc s + n])
                    @ [''Welcome, '' @ to_string (u s) @ ''!'']"
    by (simp only: Suc.IH)
  also have "\<dots> = rev (map (\<lambda>i. ''Welcome, '' @ to_string (u i) @ ''!'') [s..<s + Suc n])"
    by (simp add: upt_conv_Cons del: upt_Suc)
  finally show ?case .
qed


subsection \<open>Runs of \<open>setUserName\<close> that return, and runs that do not\<close>

text \<open>
  When the first truthy answer is the one to \<open>prompt\<close> call number \<open>prompted p + k\<close>,
  the run returns, and this is the page it leaves.
\<close>

lemma setUserName_returns:
  "(\<forall>i<k. falsy (u (prompted p + i))) \<Longrightarrow> \<not> falsy (u (prompted p + k)) \<Longrightarrow>
   setUserName u p =
     Some (p\<lparr>myHeading := (myHeading p)\<lparr>textContent := ''Welcome, '' @ to_string (u (prompted p)) @ ''!''\<rparr>,
             localStorage := (localStorage p)(''name'' \<mapsto> to_string (u (prompted p))),
             prompted := prompted p + Suc k,
             trace := trace p @ replicate (Suc k) Prompt @ unwinding u (prompted p) (Suc k)\<rparr>)"
proof (induction k arbitrary: p)
  case 0
  then show ?case
    by (simp add: setUserName_truthy prompt_def setItem_def set_textContent_def unwinding_def
        del: fun_upd_apply)
next
  case (Suc k)
  let ?p1 = "snd (prompt u p)"
  have p1: "prompted ?p1 = Suc (prompted p)" by (simp add: prompt_def)
  from Suc.prems have f0: "falsy (u (prompted p))" by (metis add.right_neutral zero_less_Suc)
  have later: "\<forall>i<k. falsy (u (prompted ?p1 + i))"
  proof (intro allI impI)
    fix i assume "i < k"
    then have "Suc i < Suc k" by simp
    with Suc.prems(1) have "falsy (u (prompted p + Suc i))" by blast
    then show "falsy (u (prompted ?p1 + i))" by (simp add: p1)
  qed
  from Suc.prems(2) have "\<not> falsy (u (prompted ?p1 + k))" by (simp add: p1)
  from Suc.IH [OF later this] f0 show ?case
    by (simp add: setUserName_falsy p1 unwinding_Suc [of u "prompted p"] prompt_def setItem_def
        set_textContent_def replicate_append_same del: fun_upd_apply)
qed

text \<open>A run that returns has met a truthy answer.\<close>

lemma setUserName_Some_truthy:
  "setUserName u p = Some p' \<Longrightarrow> \<exists>i. \<not> falsy (u (prompted p + i))"
proof (induct rule: setUserName.raw_induct [rotated -1, consumes 1])
  case (1 setUserName' u p p')
  show ?case
  proof (cases "falsy (u (prompted p))")
    case True
    with 1(2) obtain p2 where "setUserName' u (snd (prompt u p)) = Some p2"
      by (auto simp: prompt_def bind_eq_Some_conv)
    from 1(1) [OF this] obtain i where "\<not> falsy (u (Suc (prompted p) + i))"
      by (auto simp: prompt_def)
    then have "\<not> falsy (u (prompted p + Suc i))" by simp
    then show ?thesis by blast
  next
    case False
    then have "\<not> falsy (u (prompted p + 0))" by simp
    then show ?thesis by blast
  qed
qed

text \<open>Hence a run that returns is one of the runs \<open>setUserName_returns\<close> describes.\<close>

lemma setUserName_Some_first:
  assumes "setUserName u p = Some p'"
  obtains k where "\<forall>i<k. falsy (u (prompted p + i))" and "\<not> falsy (u (prompted p + k))"
proof -
  let ?k = "LEAST i. \<not> falsy (u (prompted p + i))"
  from setUserName_Some_truthy [OF assms] have "\<not> falsy (u (prompted p + ?k))"
    by (rule exE) (rule LeastI)
  moreover have "\<forall>i<?k. falsy (u (prompted p + i))"
    using not_less_Least by blast
  ultimately show thesis using that by blast
qed

text \<open>With one truthy answer there is no retry: one prompt and one pair of writes.\<close>

lemma setUserName_first_answer:
  assumes "\<not> falsy (u (prompted p))"
  shows "setUserName u p =
     Some (p\<lparr>myHeading := (myHeading p)\<lparr>textContent := ''Welcome, '' @ to_string (u (prompted p)) @ ''!''\<rparr>,
             localStorage := (localStorage p)(''name'' \<mapsto> to_string (u (prompted p))),
             prompted := Suc (prompted p),
             trace := trace p @ [Prompt, SetItem ''name'' (to_string (u (prompted p))),
                       TextContent (''Welcome, '' @ to_string (u (prompted p)) @ ''!'')]\<rparr>)"
  using setUserName_returns [of 0 u p] assms
  by (simp add: unwinding_Suc unwinding_0 del: fun_upd_apply)

text \<open>The parts of that page the properties below read.\<close>

lemma setUserName_returns_fields:
  assumes "\<forall>i<k. falsy (u (prompted p + i))" and "\<not> falsy (u (prompted p + k))"
  shows "\<exists>p'. setUserName u p = Some p' \<and>
           prompted p' = prompted p + Suc k \<and>
           trace p' = trace p @ replicate (Suc k) Prompt @ unwinding u (prompted p) (Suc k) \<and>
           localStorage p' ''name'' = Some (to_string (u (prompted p))) \<and>
           textContent (myHeading p') = ''Welcome, '' @ to_string (u (prompted p)) @ ''!''"
  by (simp add: setUserName_returns [OF assms] del: replicate_Suc)

subsection \<open>Runs on a bounded call stack\<close>

text \<open>With room for the invocations it needs, the run returns the same page.\<close>

lemma setUserName_stack_returns:
  "(\<forall>i<k. falsy (u (prompted p + i))) \<Longrightarrow> \<not> falsy (u (prompted p + k)) \<Longrightarrow> k < d \<Longrightarrow>
   setUserName_stack u d p =
     Inr (p\<lparr>myHeading := (myHeading p)\<lparr>textContent := ''Welcome, '' @ to_string (u (prompted p)) @ ''!''\<rparr>,
            localStorage := (localStorage p)(''name'' \<mapsto> to_string (u (prompted p))),
            prompted := prompted p + Suc k,
            trace := trace p @ replicate (Suc k) Prompt @ unwinding u (prompted p) (Suc k)\<rparr>)"
proof (induction k arbitrary: p d)
  case 0
  then obtain e where d: "d = Suc e" by (cases d) simp_all
  from 0 show ?case
    by (simp add: d prompt_def setItem_def set_textContent_def unwinding_def del: fun_upd_apply)
next
  case (Suc k)
  then obtain e where d: "d = Suc e" and e: "k < e" by (cases d) simp_all
  let ?p1 = "snd (prompt u p)"
  have p1: "prompted ?p1 = Suc (prompted p)" by (simp add: prompt_def)
  from Suc.prems have f0: "falsy (u (prompted p))" by (metis add.right_neutral zero_less_Suc)
  have later: "\<forall>i<k. falsy (u (prompted ?p1 + i))"
  proof (intro allI impI)
    fix i assume "i < k"
    then have "Suc i < Suc k" by simp
    with Suc.prems(1) have "falsy (u (prompted p + Suc i))" by blast
    then show "falsy (u (prompted ?p1 + i))" by (simp add: p1)
  qed
  from Suc.prems(2) have "\<not> falsy (u (prompted ?p1 + k))" by (simp add: p1)
  from Suc.IH [OF later this e] f0 show ?case
    by (simp add: d p1 unwinding_Suc [of u "prompted p"] prompt_def setItem_def
        set_textContent_def replicate_append_same del: fun_upd_apply)
qed

text \<open>
  When none of the first \<open>d\<close> answers is truthy, the run makes \<open>d\<close> prompts and ends
  by the error, with nothing written.
\<close>

lemma setUserName_stack_overflow:
  "(\<forall>i<d. falsy (u (prompted p + i))) \<Longrightarrow>
   setUserName_stack u d p =
     Inl (RangeError, p\<lparr>prompted := prompted p + d, trace := trace p @ replicate d Prompt\<rparr>)"
proof (induction d arbitrary: p)
  case 0
  show ?case by simp
next
  case (Suc d)
  let ?p1 = "snd (prompt u p)"
  have p1: "prompted ?p1 = Suc (prompted p)" by (simp add: prompt_def)
  from Suc.prems have f0: "falsy (u (prompted p))" by (metis add.right_neutral zero_less_Suc)
  have "\<forall>i<d. falsy (u (prompted ?p1 + i))"
  proof (intro allI impI)
    fix i assume "i < d"
    then have "Suc i < Suc d" by simp
    with Suc.prems have "falsy (u (prompted p + Suc i))" by blast
    then show "falsy (u (prompted ?p1 + i))" by (simp add: p1)
  qed
  from Suc.IH [OF this] f0 show ?case
    by (simp add: prompt_def replicate_append_same)
qed

lemma setUserName_stack_Inr_first:
  assumes "setUserName_stack u d p = Inr p'"
  obtains k where "k < d" and "\<forall>i<k. falsy (u (prompted p + i))"
    and "\<not> falsy (u (prompted p + k))"
proof -
  have "\<exists>i<d. \<not> falsy (u (prompted p + i))"
  proof (rule ccontr)
    assume "\<not> (\<exists>i<d. \<not> falsy (u (prompted p + i)))"
    then have "\<forall>i<d. falsy (u (prompted p + i))" by blast
    from setUserName_stack_overflow [OF this] assms show False by simp
  qed
  then obtain j where j: "j < d" "\<not> falsy (u (prompted p + j))" by blast
  let ?k = "LEAST i. \<not> falsy (u (prompted p + i))"
  from j(2) have "\<not> falsy (u (prompted p + ?k))" by (rule LeastI)
  moreover have "\<forall>i<?k. falsy (u (prompted p + i))"
    using not_less_Least by blast
  moreover from j have "?k < d" by (meson Least_le le_less_trans)
  ultimately show thesis using that by blast
qed


text \<open>
  The two models agree wherever the stack suffices: a run that returns on the bounded
  stack is a run of \<open>setUserName\<close>, and a run of \<open>setUserName\<close> returns on every stack
  with room for its prompts.
\<close>

lemma setUserName_stack_Inr:
  "setUserName_stack u d p = Inr p' \<Longrightarrow> setUserName u p = Some p'"
proof -
  assume run: "setUserName_stack u d p = Inr p'"
  then obtain k where k: "k < d" "\<forall>i<k. falsy (u (prompted p + i))"
    "\<not> falsy (u (prompted p + k))"
    by (rule setUserName_stack_Inr_first)
  from setUserName_stack_returns [OF k(2) k(3) k(1)] run setUserName_returns [OF k(2) k(3)]
  show ?thesis by simp
qed

lemma setUserName_Some_stack:
  "setUserName u p = Some p' \<Longrightarrow> prompted p' - prompted p \<le> d \<Longrightarrow>
   setUserName_stack u d p = Inr p'"
proof -
  assume run: "setUserName u p = Some p'" and d: "prompted p' - prompted p \<le> d"
  from run obtain k where k: "\<forall>i<k. falsy (u (prompted p + i))"
    "\<not> falsy (u (prompted p + k))"
    by (rule setUserName_Some_first)
  from setUserName_returns [OF k] run have "prompted p' = prompted p + Suc k" by auto
  with d have "k < d" by simp
  from setUserName_stack_returns [OF k this] run setUserName_returns [OF k]
  show ?thesis by simp
qed





subsection \<open>The image toggle\<close>

text \<open>
  The handler reads the \<open>src\<close> attribute and writes one of two constants. The second
  copy of the handler among the repository's files differs from the one in
  \<open>scripts/main.js\<close> in two semicolons only.
\<close>

lemma myImage_onclick_src:
  "getAttribute (myImage (myImage_onclick p)) ''src'' =
     (if getAttribute (myImage p) ''src'' = Some default_src then Some alternate_src
      else Some default_src)"
  by (simp add: myImage_onclick_def getAttribute_def setAttribute_def default_src_def
      alternate_src_def)

lemma default_neq_alternate: "default_src \<noteq> alternate_src"
  by (simp add: default_src_def alternate_src_def)

text \<open>
  Claim C7. When the image's \<open>src\<close> is the default source, one click makes it the
  alternate source and two clicks make it the default source again; the two clicks
  together leave the whole page as it was.
\<close>

theorem myImage_onclick_toggle:
  "getAttribute (myImage p) ''src'' = Some default_src \<Longrightarrow>
   getAttribute (myImage (myImage_onclick p)) ''src'' = Some alternate_src \<and>
   getAttribute (myImage (myImage_onclick (myImage_onclick p))) ''src'' = Some default_src \<and>
   myImage_onclick (myImage_onclick p) = p"
proof (intro conjI)
  assume d: "getAttribute (myImage p) ''src'' = Some default_src"
  then show a: "getAttribute (myImage (myImage_onclick p)) ''src'' = Some alternate_src"
    by (simp add: myImage_onclick_src)
  with default_neq_alternate
  show "getAttribute (myImage (myImage_onclick (myImage_onclick p))) ''src'' = Some default_src"
    by (simp add: myImage_onclick_src)
  from d have "attrs (myImage p) ''src'' = Some ''images/user-image.png''"
    by (simp add: getAttribute_def default_src_def)
  then have "(attrs (myImage p))(''src'' \<mapsto> ''images/user-image.png'') = attrs (myImage p)"
    by (rule map_upd_triv)
  with d show "myImage_onclick (myImage_onclick p) = p"
    by (simp add: myImage_onclick_def getAttribute_def setAttribute_def default_src_def
        fun_upd_same del: fun_upd_apply)
qed

theorem myImage_onclick_toggle_witness:
  "getAttribute (myImage first_visit) ''src'' = Some default_src \<and>
   getAttribute (myImage (myImage_onclick first_visit)) ''src'' = Some alternate_src \<and>
   getAttribute (myImage (myImage_onclick (myImage_onclick first_visit))) ''src'' = Some default_src \<and>
   myImage_onclick (myImage_onclick first_visit) = first_visit"
proof -
  have h: "getAttribute (myImage first_visit) ''src'' = Some default_src"
    by (simp add: first_visit_def getAttribute_def default_src_def)
  from h myImage_onclick_toggle [OF h] show ?thesis by simp
qed

text \<open>
  Claim C8. When the image's \<open>src\<close> is anything but the default source (the alternate
  source, any other string, or no attribute at all), one click sets it to the default
  source.
\<close>

theorem myImage_onclick_to_default:
  "getAttribute (myImage p) ''src'' \<noteq> Some default_src \<Longrightarrow>
   getAttribute (myImage (myImage_onclick p)) ''src'' = Some default_src"
  by (simp add: myImage_onclick_src)

theorem myImage_onclick_to_default_witness:
  "getAttribute (myImage broken_image) ''src'' = Some ''images/missing.png'' \<and>
   getAttribute (myImage (myImage_onclick broken_image)) ''src'' = Some default_src"
proof -
  have h: "getAttribute (myImage broken_image) ''src'' = Some ''images/missing.png''"
    by (simp add: broken_image_def getAttribute_def)
  then have "getAttribute (myImage broken_image) ''src'' \<noteq> Some default_src"
    by (simp add: default_src_def)
  from h myImage_onclick_to_default [OF this] show ?thesis by simp
qed

text \<open>
  Claim C9. Whatever the image's \<open>src\<close> was at first, after \<open>n \<ge> 1\<close> clicks it is one
  of the two known sources, and one more click keeps it so.
\<close>

theorem myImage_onclick_two_sources:
  "1 \<le> n \<Longrightarrow>
   getAttribute (myImage ((myImage_onclick ^^ n) p)) ''src'' \<in> {Some default_src, Some alternate_src} \<and>
   getAttribute (myImage (myImage_onclick ((myImage_onclick ^^ n) p))) ''src''
     \<in> {Some default_src, Some alternate_src}"
proof -
  assume "1 \<le> n"
  then obtain m where n: "n = Suc m" by (cases n) simp_all
  have one: "getAttribute (myImage (myImage_onclick q)) ''src'' \<in> {Some default_src, Some alternate_src}" for q
    by (simp add: myImage_onclick_src)
  from one [of "(myImage_onclick ^^ m) p"] one [of "(myImage_onclick ^^ n) p"]
  show ?thesis by (simp add: n)
qed

theorem myImage_onclick_two_sources_witness:
  "(1::nat) \<le> 3 \<and>
   getAttribute (myImage ((myImage_onclick ^^ 3) broken_image)) ''src'' \<in> {Some default_src, Some alternate_src} \<and>
   getAttribute (myImage (myImage_onclick ((myImage_onclick ^^ 3) broken_image))) ''src''
     \<in> {Some default_src, Some alternate_src}"
proof -
  have h: "(1::nat) \<le> 3" by simp
  from h myImage_onclick_two_sources [OF h, of broken_image] show ?thesis by blast
qed

subsection \<open>The name: retry and termination\<close>




subsection \<open>The name: page load and the button\<close>

text \<open>
  Claim C4. With no name in the store and a user who answers \<open>Alex\<close> to the first
  prompt, the page-load statements return, the store holds \<open>Alex\<close> under \<open>name\<close> and
  the heading reads \<open>Welcome, Alex!\<close>.
\<close>

theorem page_load_prompts_when_unset:
  "localStorage p ''name'' = None \<Longrightarrow> u (prompted p) = Some ''Alex'' \<Longrightarrow>
   \<exists>p'. page_load u p = Some p' \<and> localStorage p' ''name'' = Some ''Alex'' \<and>
        textContent (myHeading p') = ''Welcome, Alex!''"
  by (simp add: page_load_def getItem_def falsy_def setUserName_first_answer to_string_def)

theorem page_load_prompts_when_unset_witness:
  "localStorage first_visit ''name'' = None \<and>
   answers [Some ''Alex''] (prompted first_visit) = Some ''Alex'' \<and>
   (\<exists>p'. page_load (answers [Some ''Alex'']) first_visit = Some p' \<and>
         localStorage p' ''name'' = Some ''Alex'' \<and>
         textContent (myHeading p') = ''Welcome, Alex!'')"
proof -
  have h1: "localStorage first_visit ''name'' = None" by (simp add: first_visit_def)
  have h2: "answers [Some ''Alex''] (prompted first_visit) = Some ''Alex''"
    by (simp add: first_visit_def answers_def)
  from h1 h2 page_load_prompts_when_unset [of first_visit "answers [Some ''Alex'']", OF h1 h2] show ?thesis by simp
qed

text \<open>
  Claim C5. With \<open>Sam\<close> in the store under \<open>name\<close>, the page-load statements set the
  heading to \<open>Welcome, Sam!\<close> and change nothing else: no \<open>prompt\<close> call is made and
  the store is not written (the only new event is the heading's text).
\<close>

theorem page_load_uses_stored:
  "localStorage p ''name'' = Some ''Sam'' \<Longrightarrow>
   page_load u p =
     Some (p\<lparr>myHeading := (myHeading p)\<lparr>textContent := ''Welcome, Sam!''\<rparr>,
             trace := trace p @ [TextContent ''Welcome, Sam!'']\<rparr>)"
  by (simp add: page_load_def getItem_def falsy_def set_textContent_def to_string_def)

theorem page_load_uses_stored_witness:
  "localStorage returning ''name'' = Some ''Sam'' \<and>
   page_load (answers []) returning =
     Some (returning\<lparr>myHeading := (myHeading returning)\<lparr>textContent := ''Welcome, Sam!''\<rparr>,
             trace := trace returning @ [TextContent ''Welcome, Sam!'']\<rparr>)"
proof -
  have h: "localStorage returning ''name'' = Some ''Sam''"
    by (simp add: returning_def)
  from h page_load_uses_stored [OF h] show ?thesis by simp
qed

text \<open>
  Claim C6. A click on the button always prompts and overwrites: whatever the store
  holds under \<open>name\<close> (\<open>Sam\<close>, any other value, or nothing) and whatever non-empty
  answer \<open>a\<close> the user gives to the prompt (\<open>Lee\<close>, say), the handler prompts once
  and returns with \<open>a\<close> in the store under \<open>name\<close> and the heading reading
  \<open>Welcome, a!\<close>; nothing else on the page changes.
\<close>

theorem myButton_onclick_overwrites:
  "u (prompted p) = Some a \<Longrightarrow> a \<noteq> [] \<Longrightarrow>
   myButton_onclick u p =
     Some (p\<lparr>myHeading := (myHeading p)\<lparr>textContent := ''Welcome, '' @ a @ ''!''\<rparr>,
             localStorage := (localStorage p)(''name'' \<mapsto> a),
             prompted := Suc (prompted p),
             trace := trace p @ [Prompt, SetItem ''name'' a,
                       TextContent (''Welcome, '' @ a @ ''!'')]\<rparr>)"
  by (simp add: myButton_onclick_def falsy_def setUserName_first_answer to_string_def
      del: fun_upd_apply)

theorem myButton_onclick_overwrites_witness:
  "localStorage returning ''name'' = Some ''Sam'' \<and>
   answers [Some ''Lee''] (prompted returning) = Some ''Lee'' \<and> ''Lee'' \<noteq> [] \<and>
   (\<exists>p'. myButton_onclick (answers [Some ''Lee'']) returning = Some p' \<and>
         prompted p' = Suc (prompted returning) \<and>
         localStorage p' ''name'' = Some ''Lee'' \<and>
         textContent (myHeading p') = ''Welcome, Lee!'')"
proof -
  have h0: "localStorage returning ''name'' = Some ''Sam''"
    by (simp add: returning_def)
  have h1: "answers [Some ''Lee''] (prompted returning) = Some ''Lee''"
    by (simp add: returning_def first_visit_def answers_def)
  have h2: "''Lee'' \<noteq> []" by simp
  from h0 h1 h2 myButton_onclick_overwrites [of "answers [Some ''Lee'']" returning "''Lee''", OF h1 h2]
  show ?thesis by simp
qed

subsection \<open>The name: the writes of a run with retries\<close>




text \<open>
  Claim C1, on the answers \<open>""\<close>, \<open>""\<close>, \<open>Jo\<close>. The run makes three \<open>prompt\<close> calls and
  returns, as the claim says; but the store key \<open>name\<close> is written three times, with
  \<open>Jo\<close> and then twice with the empty string, so that the value left in the store is
  the empty string and the heading reads \<open>Welcome, !\<close>.
\<close>

theorem setUserName_retry_overwrites_name:
  "\<exists>p'. setUserName (answers [Some '''', Some '''', Some ''Jo'']) first_visit = Some p' \<and>
        prompted p' = 3 \<and>
        store_writes ''name'' (trace p') = [''Jo'', '''', ''''] \<and>
        localStorage p' ''name'' = Some '''' \<and>
        textContent (myHeading p') = ''Welcome, !''"
proof -
  let ?u = "answers [Some '''', Some '''', Some ''Jo'']"
  have p0: "prompted first_visit = 0" "trace first_visit = []"
    by (simp_all add: first_visit_def)
  have u0: "to_string (?u 0) = []"
    by (simp add: answers_def to_string_def)
  have "\<forall>i<2. falsy (?u (prompted first_visit + i))"
    and "\<not> falsy (?u (prompted first_visit + 2))"
    by (simp_all add: answers_def falsy_def p0 less_Suc_eq numeral_2_eq_2)
  from setUserName_returns_fields [OF this] obtain p' where
    run: "setUserName ?u first_visit = Some p'" and
    n: "prompted p' = Suc 2" and
    tr: "trace p' = replicate (Suc 2) Prompt @ unwinding ?u 0 (Suc 2)" and
    st: "localStorage p' ''name'' = Some []" and
    hd: "textContent (myHeading p') = ''Welcome, !''"
    by (auto simp only: p0 u0 add_0 append_Nil append_Cons)
  have "store_writes ''name'' (trace p') = rev (map (\<lambda>i. to_string (?u i)) [0..<0 + Suc 2])"
    by (simp only: tr store_writes_append store_writes_Prompts store_writes_unwinding append_Nil)
  also have "\<dots> = [''Jo'', '''', '''']"
    by (simp add: answers_def to_string_def eval_nat_numeral)
  finally have "store_writes ''name'' (trace p') = [''Jo'', '''', '''']" .
  with run n st hd show ?thesis by simp
qed

text \<open>
  Claim C2, on a first visit with the answers \<open>""\<close>, \<open>Jo\<close>. The page-load statements
  return with the heading showing the stored value, as the claim says; but the heading
  was written twice, first with \<open>Welcome, Jo!\<close> and then with \<open>Welcome, !\<close>.
\<close>

theorem page_load_retry_renders_twice:
  "\<exists>p'. page_load (answers [Some '''', Some ''Jo'']) first_visit = Some p' \<and>
        prompted p' = 2 \<and>
        heading_writes (trace p') = [''Welcome, Jo!'', ''Welcome, !''] \<and>
        localStorage p' ''name'' = Some '''' \<and>
        textContent (myHeading p') = ''Welcome, !''"
proof -
  let ?u = "answers [Some '''', Some ''Jo'']"
  have p0: "prompted first_visit = 0" "trace first_visit = []"
    by (simp_all add: first_visit_def)
  have u0: "to_string (?u 0) = []"
    by (simp add: answers_def to_string_def)
  have "\<forall>i<1. falsy (?u (prompted first_visit + i))"
    and "\<not> falsy (?u (prompted first_visit + 1))"
    by (simp_all add: answers_def falsy_def p0)
  from setUserName_returns_fields [OF this] obtain p' where
    run: "setUserName ?u first_visit = Some p'" and
    n: "prompted p' = Suc 1" and
    tr: "trace p' = replicate (Suc 1) Prompt @ unwinding ?u 0 (Suc 1)" and
    st: "localStorage p' ''name'' = Some []" and
    hd: "textContent (myHeading p') = ''Welcome, !''"
    by (auto simp only: p0 u0 add_0 append_Nil append_Cons)
  have "heading_writes (trace p') =
      rev (map (\<lambda>i. ''Welcome, '' @ to_string (?u i) @ ''!'') [0..<0 + Suc 1])"
    by (simp only: tr heading_writes_append heading_writes_Prompts heading_writes_unwinding
        append_Nil)
  also have "\<dots> = [''Welcome, Jo!'', ''Welcome, !'']"
    by (simp add: answers_def to_string_def)
  finally have hw: "heading_writes (trace p') = [''Welcome, Jo!'', ''Welcome, !'']" .
  have "page_load ?u first_visit = setUserName ?u first_visit"
    by (simp add: page_load_def getItem_def falsy_def first_visit_def)
  with run n st hd hw show ?thesis by simp
qed

end
